theory Spec2Isabelle
  imports
    Main
    "HOL-Library.Char_ord"
    "HOL-Library.List_Lexorder"
    "HOL-Library.Option_ord"
begin

section \<open>The persistent store\<close>

text \<open>
  The server keeps four SQLite tables. A row is a record with one field per column, a
  nullable column is an \<open>option\<close> (\<open>None\<close> is NULL), and a table is the list of its
  rows in the order a table scan visits them: insertion order for \<open>users\<close> and
  \<open>settings\<close>, ascending rowid for \<open>tasks\<close> and \<open>subtasks\<close>, whose
  \<open>id INTEGER PRIMARY KEY AUTOINCREMENT\<close> is the rowid. The key of \<open>users\<close> is
  \<open>id TEXT PRIMARY KEY\<close>, which SQLite lets be NULL (any number of rows may have a
  NULL id).

  The two DATETIME columns hold text: \<open>created_at\<close> the value of CURRENT_TIMESTAMP
  (\<open>YYYY-MM-DD HH:MM:SS\<close>) and \<open>completed_at\<close> the value of
  \<open>new Date().toISOString()\<close>. SQLite compares text byte by byte, which is the
  lexicographic order on \<open>string\<close>, and sorts NULL below every value, which is the
  order on \<open>option\<close> with \<open>None\<close> least.
\<close>

record user_row =
  u_id :: "string option"
  u_email :: "string option"
  u_name :: "string option"
  u_picture :: "string option"
  u_ads_removed :: int

record task_row =
  t_id :: int
  t_user_id :: string
  t_title :: string
  t_created_at :: string

record subtask_row =
  s_id :: int
  s_task_id :: int
  s_title :: string
  s_completed :: int
  s_photo_url :: "string option"
  s_completed_at :: "string option"

text \<open>
  \<open>tasks_seq\<close> and \<open>subtasks_seq\<close> are the two rows of \<open>sqlite_sequence\<close>, the
  largest rowid AUTOINCREMENT has handed out for each table.
\<close>

record db =
  users :: "user_row list"
  tasks :: "task_row list"
  subtasks :: "subtask_row list"
  settings :: "(string \<times> string) list"
  tasks_seq :: int
  subtasks_seq :: int

datatype sql_error =
    SQLITE_CONSTRAINT_UNIQUE
  | SQLITE_CONSTRAINT_NOTNULL
  | SQLITE_CONSTRAINT_FOREIGNKEY

text \<open>
  What the login callback reads of the body of the provider's user-info reply; the
  session stores the body whole. The callback checks neither the reply's status nor the
  presence of a field: in an error body none of the four is there, and an absent field
  (\<open>undefined\<close>) is bound to a statement as NULL.
\<close>

record profile =
  p_id :: "string option"
  p_email :: "string option"
  p_name :: "string option"
  p_picture :: "string option"

type_synonym session = "profile option"

subsection \<open>The start-up script\<close>

text \<open>
  \<open>CREATE TABLE IF NOT EXISTS\<close> keeps a table that is there, and
  \<open>INSERT OR IGNORE INTO settings\<close> adds the \<open>ads_removed\<close> row unless the key
  is there. \<open>fresh_db\<close> is the store of a first start.
\<close>

definition insert_or_ignore_settings :: "db \<Rightarrow> db" where
  "insert_or_ignore_settings d =
     (case map_of (settings d) ''ads_removed'' of
        Some v \<Rightarrow> d
      | None \<Rightarrow> d\<lparr>settings := settings d @ [(''ads_removed'', ''false'')]\<rparr>)"

definition empty_db :: db where
  "empty_db = \<lparr>users = [], tasks = [], subtasks = [], settings = [],
                tasks_seq = 0, subtasks_seq = 0\<rparr>"

definition fresh_db :: db where
  "fresh_db = insert_or_ignore_settings empty_db"

subsection \<open>Statements\<close>

text \<open>
  The comparison \<open>column = ?\<close> of a WHERE clause or a uniqueness check: it holds of no
  row when either side is NULL.
\<close>

definition sql_eq :: "'a option \<Rightarrow> 'a option \<Rightarrow> bool" where
  "sql_eq a b = (a \<noteq> None \<and> a = b)"

text \<open>
  AUTOINCREMENT: the new rowid is one more than the largest of the rowids in the table
  and the one recorded in \<open>sqlite_sequence\<close>.
\<close>

definition next_rowid :: "int \<Rightarrow> int list \<Rightarrow> int" where
  "next_rowid seq ids = fold max ids seq + 1"

text \<open>
  \<open>ORDER BY key DESC\<close>. The statements of the server name one key and no tie-break:
  rows with equal keys come in the order the scan meets them, as SQLite's sorter leaves
  them.
\<close>

fun insert_desc :: "('a \<Rightarrow> 'k::linorder) \<Rightarrow> 'a \<Rightarrow> 'a list \<Rightarrow> 'a list" where
  "insert_desc f x [] = [x]"
| "insert_desc f x (y # ys) =
     (if f y \<le> f x then x # y # ys else y # insert_desc f x ys)"

definition order_by_desc :: "('a \<Rightarrow> 'k::linorder) \<Rightarrow> 'a list \<Rightarrow> 'a list" where
  "order_by_desc f xs = foldr (insert_desc f) xs []"

text \<open>
  The upsert of the login callback:
  \<^verbatim>\<open>INSERT INTO users (id, email, name, picture) VALUES (?, ?, ?, ?)
  ON CONFLICT(id) DO UPDATE SET email=excluded.email, name=excluded.name,
  picture=excluded.picture\<close>.
  The conflict clause covers the primary key only: an email that another row holds
  violates \<open>email TEXT UNIQUE\<close> and the statement fails. NULLs never collide, in
  either column: a profile without an id conflicts with no row and is inserted as a new
  row with a NULL id. A new row takes \<open>ads_removed\<close> from its \<open>DEFAULT 0\<close>.
\<close>

definition upsert_user :: "profile \<Rightarrow> db \<Rightarrow> sql_error + db" where
  "upsert_user g d =
     (if list_ex (\<lambda>u. \<not> sql_eq (u_id u) (p_id g) \<and> sql_eq (u_email u) (p_email g)) (users d)
      then Inl SQLITE_CONSTRAINT_UNIQUE
      else if list_ex (\<lambda>u. sql_eq (u_id u) (p_id g)) (users d)
      then Inr (d\<lparr>users :=
                  map (\<lambda>u. if sql_eq (u_id u) (p_id g)
                            then u\<lparr>u_email := p_email g, u_name := p_name g,
                                   u_picture := p_picture g\<rparr>
                            else u) (users d)\<rparr>)
      else Inr (d\<lparr>users := users d @
                  [\<lparr>u_id = p_id g, u_email = p_email g, u_name = p_name g,
                    u_picture = p_picture g, u_ads_removed = 0\<rparr>]\<rparr>))"

text \<open>\<^verbatim>\<open>SELECT ... FROM users WHERE id = ?\<close>, first row.\<close>

definition select_user :: "string option \<Rightarrow> db \<Rightarrow> user_row option" where
  "select_user uid d = find (\<lambda>u. sql_eq (u_id u) uid) (users d)"

text \<open>\<^verbatim>\<open>UPDATE users SET ads_removed = 1 WHERE id = ?\<close>\<close>

definition update_users_ads_removed :: "string option \<Rightarrow> db \<Rightarrow> db" where
  "update_users_ads_removed uid d =
     d\<lparr>users := map (\<lambda>u. if sql_eq (u_id u) uid then u\<lparr>u_ads_removed := 1\<rparr> else u)
                    (users d)\<rparr>"

text \<open>\<^verbatim>\<open>SELECT * FROM tasks WHERE id = ? AND user_id = ?\<close>, first row.\<close>

definition select_task_of_user :: "int \<Rightarrow> string option \<Rightarrow> db \<Rightarrow> task_row option" where
  "select_task_of_user tid uid d =
     find (\<lambda>t. t_id t = tid \<and> sql_eq (Some (t_user_id t)) uid) (tasks d)"

text \<open>
  \<^verbatim>\<open>INSERT INTO tasks (user_id, title) VALUES (?, ?)\<close>: \<open>user_id\<close> and
  \<open>title\<close> are NOT NULL, \<open>user_id\<close> references \<open>users(id)\<close>, \<open>created_at\<close>
  defaults to CURRENT_TIMESTAMP (\<open>now\<close>). The result carries \<open>lastInsertRowid\<close>.
\<close>

definition insert_task ::
  "string \<Rightarrow> string option \<Rightarrow> string option \<Rightarrow> db \<Rightarrow> sql_error + (int \<times> db)" where
  "insert_task now uid title d =
     (case (uid, title) of
        (Some usr, Some ti) \<Rightarrow>
          if \<not> list_ex (\<lambda>u. u_id u = Some usr) (users d)
          then Inl SQLITE_CONSTRAINT_FOREIGNKEY
          else
            let i = next_rowid (tasks_seq d) (map t_id (tasks d)) in
            Inr (i, d\<lparr>tasks := tasks d @
                        [\<lparr>t_id = i, t_user_id = usr, t_title = ti, t_created_at = now\<rparr>],
                      tasks_seq := i\<rparr>)
      | _ \<Rightarrow> Inl SQLITE_CONSTRAINT_NOTNULL)"

text \<open>
  \<^verbatim>\<open>DELETE FROM tasks WHERE id = ?\<close>, with
  \<^verbatim>\<open>FOREIGN KEY (task_id) REFERENCES tasks(id) ON DELETE CASCADE\<close> on \<open>subtasks\<close>.
\<close>

definition delete_task :: "int \<Rightarrow> db \<Rightarrow> db" where
  "delete_task tid d =
     d\<lparr>tasks := filter (\<lambda>t. t_id t \<noteq> tid) (tasks d),
       subtasks := filter (\<lambda>s. s_task_id s \<noteq> tid) (subtasks d)\<rparr>"

text \<open>
  \<^verbatim>\<open>INSERT INTO subtasks (task_id, title) VALUES (?, ?)\<close>: \<open>completed\<close> defaults to
  0, \<open>photo_url\<close> and \<open>completed_at\<close> to NULL.
\<close>

definition insert_subtask :: "int \<Rightarrow> string option \<Rightarrow> db \<Rightarrow> sql_error + (int \<times> db)" where
  "insert_subtask tid title d =
     (case title of
        None \<Rightarrow> Inl SQLITE_CONSTRAINT_NOTNULL
      | Some ti \<Rightarrow>
          if \<not> list_ex (\<lambda>t. t_id t = tid) (tasks d) then Inl SQLITE_CONSTRAINT_FOREIGNKEY
          else
            let i = next_rowid (subtasks_seq d) (map s_id (subtasks d)) in
            Inr (i, d\<lparr>subtasks := subtasks d @
                        [\<lparr>s_id = i, s_task_id = tid, s_title = ti, s_completed = 0,
                          s_photo_url = None, s_completed_at = None\<rparr>],
                      subtasks_seq := i\<rparr>))"

text \<open>\<^verbatim>\<open>FROM subtasks JOIN tasks ON subtasks.task_id = tasks.id\<close>\<close>

definition subtasks_join_tasks :: "db \<Rightarrow> (subtask_row \<times> task_row) list" where
  "subtasks_join_tasks d =
     concat (map (\<lambda>s. map (\<lambda>t. (s, t)) (filter (\<lambda>t. s_task_id s = t_id t) (tasks d)))
                 (subtasks d))"

text \<open>
  \<^verbatim>\<open>SELECT subtasks.* FROM subtasks JOIN tasks ON subtasks.task_id = tasks.id
  WHERE subtasks.id = ? AND tasks.user_id = ?\<close>, first row.
\<close>

definition select_subtask_of_user :: "int \<Rightarrow> string option \<Rightarrow> db \<Rightarrow> subtask_row option" where
  "select_subtask_of_user sid uid d =
     map_option fst
       (find (\<lambda>(s, t). s_id s = sid \<and> sql_eq (Some (t_user_id t)) uid)
          (subtasks_join_tasks d))"

text \<open>
  \<^verbatim>\<open>UPDATE subtasks SET completed = ?, photo_url = ?, completed_at = ? WHERE id = ?\<close>
\<close>

definition update_subtask_with_photo :: "int \<Rightarrow> string \<Rightarrow> string option \<Rightarrow> int \<Rightarrow> db \<Rightarrow> db" where
  "update_subtask_with_photo c url at sid d =
     d\<lparr>subtasks :=
         map (\<lambda>s. if s_id s = sid
                   then s\<lparr>s_completed := c, s_photo_url := Some url, s_completed_at := at\<rparr>
                   else s) (subtasks d)\<rparr>"

text \<open>\<^verbatim>\<open>UPDATE subtasks SET completed = ?, completed_at = ? WHERE id = ?\<close>\<close>

definition update_subtask :: "int \<Rightarrow> string option \<Rightarrow> int \<Rightarrow> db \<Rightarrow> db" where
  "update_subtask c at sid d =
     d\<lparr>subtasks :=
         map (\<lambda>s. if s_id s = sid then s\<lparr>s_completed := c, s_completed_at := at\<rparr> else s)
             (subtasks d)\<rparr>"

text \<open>\<^verbatim>\<open>SELECT * FROM subtasks WHERE id = ?\<close>, first row.\<close>

definition select_subtask :: "int \<Rightarrow> db \<Rightarrow> subtask_row option" where
  "select_subtask sid d = find (\<lambda>s. s_id s = sid) (subtasks d)"

section \<open>The request handlers\<close>

text \<open>
  A response is the status and body the handler sends. \<open>InternalServerError\<close> stands
  for an exception that leaves the handler (Express answers 500). A route parameter
  \<open>:id\<close> is the integer that the column's affinity reads the text as.
\<close>

datatype response =
    Unauthorized
  | Forbidden
  | InternalServerError
  | SuccessJson
  | RedirectAuthError
  | AuthSuccessPage
  | AuthUrlJson
  | UserJson "user_row option"
  | SettingsJson bool
  | TasksJson "(task_row \<times> subtask_row list) list"
  | NewTaskJson int "string option"
  | NewSubtaskJson int int "string option" int
  | SubtaskJson "subtask_row option"
  | PhotosJson "(subtask_row \<times> string) list"

text \<open>
  The outcome of the token exchange and profile fetch of the login callback, both
  requests to the identity provider: an exception (a failed connection, a body that is
  not JSON), or the parsed body of the user-info reply, be it a profile or an error
  object.
\<close>

datatype exchange = FetchFailed | GoogleUser profile

text \<open>\<open>GET /api/auth/google/callback\<close>: a failed upsert is caught like a failed fetch.\<close>

definition get_auth_google_callback :: "exchange \<Rightarrow> session \<Rightarrow> db \<Rightarrow> response \<times> session \<times> db" where
  "get_auth_google_callback ex sess d =
     (case ex of
        FetchFailed \<Rightarrow> (RedirectAuthError, sess, d)
      | GoogleUser g \<Rightarrow>
          (case upsert_user g d of
             Inl e \<Rightarrow> (RedirectAuthError, sess, d)
           | Inr d' \<Rightarrow> (AuthSuccessPage, Some g, d')))"

text \<open>\<open>GET /api/auth/me\<close>\<close>

definition get_auth_me :: "session \<Rightarrow> db \<Rightarrow> response" where
  "get_auth_me sess d =
     (case sess of
        Some p \<Rightarrow> UserJson (select_user (p_id p) d)
      | None \<Rightarrow> UserJson None)"

text \<open>
  \<open>GET /api/settings\<close>: \<open>user?.ads_removed === 1\<close> with a session user, else
  \<open>adsRemoved.value === 'true'\<close> on the settings row (a missing row makes the property
  access throw).
\<close>

definition get_settings :: "session \<Rightarrow> db \<Rightarrow> response" where
  "get_settings sess d =
     (case sess of
        Some p \<Rightarrow>
          (case select_user (p_id p) d of
             Some u \<Rightarrow> SettingsJson (u_ads_removed u = 1)
           | None \<Rightarrow> SettingsJson False)
      | None \<Rightarrow>
          (case map_of (settings d) ''ads_removed'' of
             Some v \<Rightarrow> SettingsJson (v = ''true'')
           | None \<Rightarrow> InternalServerError))"

text \<open>\<open>POST /api/settings/remove-ads\<close>\<close>

definition post_settings_remove_ads :: "session \<Rightarrow> db \<Rightarrow> response \<times> db" where
  "post_settings_remove_ads sess d =
     (case sess of
        None \<Rightarrow> (Unauthorized, d)
      | Some p \<Rightarrow> (SuccessJson, update_users_ads_removed (p_id p) d))"

text \<open>
  \<open>GET /api/tasks\<close>:
  \<^verbatim>\<open>SELECT * FROM tasks WHERE user_id = ? ORDER BY created_at DESC\<close>, then for each
  task \<^verbatim>\<open>SELECT * FROM subtasks WHERE task_id = ?\<close>, a scan of the table.
\<close>

definition get_tasks :: "session \<Rightarrow> db \<Rightarrow> response" where
  "get_tasks sess d =
     (case sess of
        None \<Rightarrow> Unauthorized
      | Some p \<Rightarrow>
          TasksJson
            (map (\<lambda>task. (task, filter (\<lambda>s. s_task_id s = t_id task) (subtasks d)))
                 (order_by_desc t_created_at
                    (filter (\<lambda>t. sql_eq (Some (t_user_id t)) (p_id p)) (tasks d)))))"

text \<open>\<open>POST /api/tasks\<close>\<close>

definition post_tasks :: "string \<Rightarrow> string option \<Rightarrow> session \<Rightarrow> db \<Rightarrow> response \<times> db" where
  "post_tasks now title sess d =
     (case sess of
        None \<Rightarrow> (Unauthorized, d)
      | Some p \<Rightarrow>
          (case insert_task now (p_id p) title d of
             Inl e \<Rightarrow> (InternalServerError, d)
           | Inr (i, d') \<Rightarrow> (NewTaskJson i title, d')))"

text \<open>\<open>DELETE /api/tasks/:id\<close>\<close>

definition delete_tasks_id :: "int \<Rightarrow> session \<Rightarrow> db \<Rightarrow> response \<times> db" where
  "delete_tasks_id tid sess d =
     (case sess of
        None \<Rightarrow> (Unauthorized, d)
      | Some p \<Rightarrow>
          (case select_task_of_user tid (p_id p) d of
             None \<Rightarrow> (Forbidden, d)
           | Some task \<Rightarrow> (SuccessJson, delete_task tid d)))"

text \<open>\<open>POST /api/tasks/:id/subtasks\<close>\<close>

definition post_tasks_id_subtasks :: "int \<Rightarrow> string option \<Rightarrow> session \<Rightarrow> db \<Rightarrow> response \<times> db" where
  "post_tasks_id_subtasks tid title sess d =
     (case sess of
        None \<Rightarrow> (Unauthorized, d)
      | Some p \<Rightarrow>
          (case select_task_of_user tid (p_id p) d of
             None \<Rightarrow> (Forbidden, d)
           | Some task \<Rightarrow>
               (case insert_subtask tid title d of
                  Inl e \<Rightarrow> (InternalServerError, d)
                | Inr (i, d') \<Rightarrow> (NewSubtaskJson i tid title 0, d'))))"

text \<open>
  \<open>PATCH /api/subtasks/:id\<close>. \<open>completed\<close> is the text of the form field of that
  name (\<open>None\<close> when the form has none), \<open>file\<close> the name under which the upload
  middleware stored the \<open>photo\<close> part (\<open>None\<close> when the form has none), \<open>now\<close> the
  value of \<open>new Date().toISOString()\<close>.
\<close>

definition is_true :: "string option \<Rightarrow> bool" where
  "is_true completed = (completed = Some ''true'' \<or> completed = Some ''1'')"

definition patch_subtasks_id ::
  "string \<Rightarrow> int \<Rightarrow> string option \<Rightarrow> string option \<Rightarrow> session \<Rightarrow> db \<Rightarrow> response \<times> db" where
  "patch_subtasks_id now subtaskId completed file sess d =
     (case sess of
        None \<Rightarrow> (Unauthorized, d)
      | Some p \<Rightarrow>
          (case select_subtask_of_user subtaskId (p_id p) d of
             None \<Rightarrow> (Forbidden, d)
           | Some subtask \<Rightarrow>
               let photoUrl = map_option (\<lambda>filename. ''/uploads/'' @ filename) file;
                   completedAt = (if is_true completed then Some now else None);
                   d' = (case photoUrl of
                           Some url \<Rightarrow> update_subtask_with_photo 1 url completedAt subtaskId d
                         | None \<Rightarrow>
                             update_subtask (if is_true completed then 1 else 0) completedAt
                               subtaskId d)
               in (SubtaskJson (select_subtask subtaskId d'), d')))"

text \<open>
  \<open>GET /api/photos\<close>:
  \<^verbatim>\<open>SELECT subtasks.*, tasks.title as task_title FROM subtasks
  JOIN tasks ON subtasks.task_id = tasks.id
  WHERE tasks.user_id = ? AND photo_url IS NOT NULL ORDER BY completed_at DESC\<close>
\<close>

definition get_photos :: "session \<Rightarrow> db \<Rightarrow> response" where
  "get_photos sess d =
     (case sess of
        None \<Rightarrow> Unauthorized
      | Some p \<Rightarrow>
          PhotosJson
            (order_by_desc (\<lambda>row. s_completed_at (fst row))
               (map (\<lambda>(s, t). (s, t_title t))
                  (filter (\<lambda>(s, t). sql_eq (Some (t_user_id t)) (p_id p)
                                     \<and> s_photo_url s \<noteq> None)
                     (subtasks_join_tasks d)))))"

subsection \<open>The server as one step function\<close>

datatype request =
    GetAuthGoogleUrl
  | GetAuthGoogleCallback exchange
  | GetAuthMe
  | PostAuthLogout
  | GetSettings
  | PostSettingsRemoveAds
  | GetTasks
  | PostTasks "string option"
  | DeleteTasksId int
  | PostTasksIdSubtasks int "string option"
  | PatchSubtasksId int "string option" "string option"
  | GetPhotos

text \<open>
  \<open>handle ts nowiso r sess d\<close>: the response to \<open>r\<close>, the session and the store after
  it; \<open>ts\<close> is CURRENT_TIMESTAMP and \<open>nowiso\<close> is \<open>new Date().toISOString()\<close> at the
  time of the request.
\<close>

fun handle :: "string \<Rightarrow> string \<Rightarrow> request \<Rightarrow> session \<Rightarrow> db \<Rightarrow> response \<times> session \<times> db" where
  "handle ts nowiso GetAuthGoogleUrl sess d = (AuthUrlJson, sess, d)"
| "handle ts nowiso (GetAuthGoogleCallback ex) sess d = get_auth_google_callback ex sess d"
| "handle ts nowiso GetAuthMe sess d = (get_auth_me sess d, sess, d)"
| "handle ts nowiso PostAuthLogout sess d = (SuccessJson, None, d)"
| "handle ts nowiso GetSettings sess d = (get_settings sess d, sess, d)"
| "handle ts nowiso PostSettingsRemoveAds sess d =
     (case post_settings_remove_ads sess d of (r, d') \<Rightarrow> (r, sess, d'))"
| "handle ts nowiso GetTasks sess d = (get_tasks sess d, sess, d)"
| "handle ts nowiso (PostTasks title) sess d =
     (case post_tasks ts title sess d of (r, d') \<Rightarrow> (r, sess, d'))"
| "handle ts nowiso (DeleteTasksId tid) sess d =
     (case delete_tasks_id tid sess d of (r, d') \<Rightarrow> (r, sess, d'))"
| "handle ts nowiso (PostTasksIdSubtasks tid title) sess d =
     (case post_tasks_id_subtasks tid title sess d of (r, d') \<Rightarrow> (r, sess, d'))"
| "handle ts nowiso (PatchSubtasksId sid completed file) sess d =
     (case patch_subtasks_id nowiso sid completed file sess d of (r, d') \<Rightarrow> (r, sess, d'))"
| "handle ts nowiso GetPhotos sess d = (get_photos sess d, sess, d)"

section \<open>Well-formed stores\<close>

text \<open>
  The PRIMARY KEY constraints of the schema: the user ids that are not NULL are pairwise
  different, and the rows of \<open>tasks\<close> and of \<open>subtasks\<close> stand in strictly ascending
  rowid order.
  The store of a first start satisfies them and every request keeps them
  (\<open>primary_keys_fresh_db\<close>, \<open>primary_keys_handle\<close> below).
\<close>

definition primary_keys :: "db \<Rightarrow> bool" where
  "primary_keys d =
     (distinct (filter (\<lambda>i. i \<noteq> None) (map u_id (users d))) \<and>
      sorted_wrt (<) (map t_id (tasks d)) \<and>
      sorted_wrt (<) (map s_id (subtasks d)))"

subsection \<open>A store with two users, for concrete runs\<close>

definition alice :: profile where
  "alice = \<lparr>p_id = Some ''101'', p_email = Some ''alice@example.org'',
             p_name = Some ''Alice'', p_picture = None\<rparr>"

definition bob :: profile where
  "bob = \<lparr>p_id = Some ''202'', p_email = Some ''bob@example.org'',
           p_name = Some ''Bob'', p_picture = None\<rparr>"

text \<open>The profile of a later login of the first user.\<close>

definition alice_relogin :: profile where
  "alice_relogin = \<lparr>p_id = Some ''101'', p_email = Some ''alice@example.com'',
             p_name = Some ''Alice L.'', p_picture = Some ''https://lh3.example/a.png''\<rparr>"

definition demo_db :: db where
  "demo_db =
     \<lparr>users =
        [\<lparr>u_id = Some ''101'', u_email = Some ''alice@example.org'', u_name = Some ''Alice'',
          u_picture = None, u_ads_removed = 1\<rparr>,
         \<lparr>u_id = Some ''202'', u_email = Some ''bob@example.org'', u_name = Some ''Bob'',
          u_picture = None, u_ads_removed = 0\<rparr>],
      tasks =
        [\<lparr>t_id = 1, t_user_id = ''101'', t_title = ''Run'', t_created_at = ''2024-05-01 08:00:00''\<rparr>,
         \<lparr>t_id = 2, t_user_id = ''202'', t_title = ''Read'', t_created_at = ''2024-05-02 09:00:00''\<rparr>,
         \<lparr>t_id = 4, t_user_id = ''101'', t_title = ''Swim'', t_created_at = ''2024-05-03 07:30:00''\<rparr>],
      subtasks =
        [\<lparr>s_id = 1, s_task_id = 1, s_title = ''shoes'', s_completed = 0,
          s_photo_url = None, s_completed_at = None\<rparr>,
         \<lparr>s_id = 2, s_task_id = 1, s_title = ''5k'', s_completed = 1,
          s_photo_url = Some ''/uploads/1714730000000-1.png'',
          s_completed_at = Some ''2024-05-03T10:00:00.000Z''\<rparr>,
         \<lparr>s_id = 3, s_task_id = 2, s_title = ''chapter 1'', s_completed = 1,
          s_photo_url = Some ''/uploads/1714740000000-2.png'',
          s_completed_at = Some ''2024-05-03T12:00:00.000Z''\<rparr>,
         \<lparr>s_id = 5, s_task_id = 4, s_title = ''pool'', s_completed = 1,
          s_photo_url = Some ''/uploads/1714830000000-3.png'',
          s_completed_at = Some ''2024-05-04T09:00:00.000Z''\<rparr>],
      settings = [(''ads_removed'', ''false'')],
      tasks_seq = 4,
      subtasks_seq = 5\<rparr>"





section \<open>Facts about the statements\<close>

subsection \<open>ORDER BY\<close>

lemma set_insert_desc: "set (insert_desc f x xs) = insert x (set xs)"
  by (induction xs) auto

lemma set_order_by_desc: "set (order_by_desc f xs) = set xs"
  by (induction xs) (simp_all add: order_by_desc_def set_insert_desc)



lemma sorted_insert_desc:
  "sorted_wrt (\<lambda>a b. f b \<le> f a) xs \<Longrightarrow> sorted_wrt (\<lambda>a b. f b \<le> f a) (insert_desc f x xs)"
proof (induction xs)
  case Nil
  then show ?case by simp
next
  case (Cons y ys)
  show ?case
  proof (cases "f y \<le> f x")
    case True
    with Cons.prems show ?thesis by (auto intro: order_trans)
  next
    case False
    then have "f x \<le> f y" by simp
    with False Cons show ?thesis by (auto simp: set_insert_desc)
  qed
qed

lemma sorted_order_by_desc: "sorted_wrt (\<lambda>a b. f b \<le> f a) (order_by_desc f xs)"
  by (induction xs) (simp_all add: order_by_desc_def sorted_insert_desc)

subsection \<open>Row ids\<close>

lemma fold_max_ge: "(seq::int) \<le> fold max ids seq \<and> (\<forall>i\<in>set ids. i \<le> fold max ids seq)"
proof (induction ids arbitrary: seq)
  case Nil
  show ?case by simp
next
  case (Cons x xs)
  from Cons.IH [of "max x seq"] show ?case by auto
qed

lemma next_rowid_greater: "i \<in> set ids \<Longrightarrow> i < next_rowid seq ids"
  using fold_max_ge [of seq ids] by (auto simp: next_rowid_def)

lemma sorted_ids_snoc:
  "sorted_wrt (<) (map f xs) \<Longrightarrow> sorted_wrt (<) (map f xs @ [next_rowid seq (map f xs)])"
  by (auto simp: sorted_wrt_append next_rowid_greater)

lemma sorted_ids_filter:
  "sorted_wrt (<) (map f xs) \<Longrightarrow> sorted_wrt (<) (map f (filter P xs))"
  by (simp add: sorted_wrt_map sorted_wrt_filter)

lemma sorted_ids_distinct:
  fixes f :: "'a \<Rightarrow> int"
  shows "sorted_wrt (<) (map f xs) \<Longrightarrow> distinct (map f xs)"
  by (induction xs) auto

lemma find_by_key:
  "distinct (map f xs) \<Longrightarrow> x \<in> set xs \<Longrightarrow> find (\<lambda>y. f y = f x) xs = Some x"
  by (induction xs) auto

subsection \<open>Comparisons with NULL\<close>

lemma sql_eq_Some_left [simp]: "sql_eq (Some a) b = (b = Some a)"
  by (auto simp: sql_eq_def)

lemma sql_eq_Some_right [simp]: "sql_eq a (Some b) = (a = Some b)"
  by (auto simp: sql_eq_def)

lemma sql_eq_None_left [simp]: "\<not> sql_eq None b"
  by (simp add: sql_eq_def)

lemma sql_eq_None_right [simp]: "\<not> sql_eq a None"
  by (auto simp: sql_eq_def)

lemma same_opt_key_same_row:
  "distinct (filter (\<lambda>i. i \<noteq> None) (map f xs)) \<Longrightarrow> x \<in> set xs \<Longrightarrow> y \<in> set xs
   \<Longrightarrow> f x = Some k \<Longrightarrow> f y = Some k \<Longrightarrow> x = y"
  by (induction xs) (auto split: if_splits, force+)

lemma find_by_opt_key:
  "distinct (filter (\<lambda>i. i \<noteq> None) (map f xs)) \<Longrightarrow> x \<in> set xs \<Longrightarrow> f x = Some k
   \<Longrightarrow> find (\<lambda>y. f y = Some k) xs = Some x"
  by (induction xs) (auto split: if_splits, force+)

subsection \<open>Every request keeps the primary keys\<close>

lemma primary_keys_fresh_db: "primary_keys fresh_db"
  by (simp add: fresh_db_def empty_db_def insert_or_ignore_settings_def primary_keys_def)

lemma map_key_unchanged: "(\<And>x. f (g x) = f x) \<Longrightarrow> map (f \<circ> g) xs = map f xs"
  by (induction xs) simp_all

lemma primary_keys_upsert_user:
  assumes "primary_keys d" and "upsert_user g d = Inr d'"
  shows "primary_keys d'"
proof (cases "list_ex (\<lambda>u. sql_eq (u_id u) (p_id g)) (users d)")
  case True
  with assms(2) have "map u_id (users d') = map u_id (users d)"
    and "tasks d' = tasks d" and "subtasks d' = subtasks d"
    by (auto simp: upsert_user_def map_key_unchanged split: if_splits)
  with assms(1) show ?thesis by (simp add: primary_keys_def)
next
  case False
  then have new: "p_id g = None \<or> p_id g \<notin> u_id ` set (users d)"
    by (cases "p_id g") (auto simp: list_ex_iff)
  from False assms(2) have "map u_id (users d') = map u_id (users d) @ [p_id g]"
    and "tasks d' = tasks d" and "subtasks d' = subtasks d"
    by (auto simp: upsert_user_def split: if_splits)
  with assms(1) new show ?thesis by (auto simp: primary_keys_def)
qed

lemma primary_keys_update_users_ads_removed:
  "primary_keys d \<Longrightarrow> primary_keys (update_users_ads_removed uid d)"
  by (simp add: primary_keys_def update_users_ads_removed_def map_key_unchanged)

lemma primary_keys_insert_task:
  "primary_keys d \<Longrightarrow> insert_task now uid title d = Inr (i, d') \<Longrightarrow> primary_keys d'"
  by (auto simp: primary_keys_def insert_task_def Let_def sorted_ids_snoc
           split: option.splits if_splits prod.splits)

lemma primary_keys_insert_subtask:
  "primary_keys d \<Longrightarrow> insert_subtask tid title d = Inr (i, d') \<Longrightarrow> primary_keys d'"
  by (auto simp: primary_keys_def insert_subtask_def Let_def sorted_ids_snoc
           split: option.splits if_splits)

lemma primary_keys_delete_task: "primary_keys d \<Longrightarrow> primary_keys (delete_task tid d)"
  by (simp add: primary_keys_def delete_task_def sorted_ids_filter)

lemma primary_keys_update_subtask:
  "primary_keys d \<Longrightarrow> primary_keys (update_subtask c at sid d)"
  by (simp add: primary_keys_def update_subtask_def map_key_unchanged)

lemma primary_keys_update_subtask_with_photo:
  "primary_keys d \<Longrightarrow> primary_keys (update_subtask_with_photo c url at sid d)"
  by (simp add: primary_keys_def update_subtask_with_photo_def map_key_unchanged)

lemma primary_keys_handle:
  assumes "primary_keys d" and "handle ts nowiso r sess d = (resp, sess', d')"
  shows "primary_keys d'"
proof (cases r)
  case (GetAuthGoogleCallback ex)
  with assms show ?thesis
    by (auto simp: get_auth_google_callback_def primary_keys_upsert_user
             split: exchange.splits sum.splits)
next
  case PostSettingsRemoveAds
  with assms show ?thesis
    by (auto simp: post_settings_remove_ads_def primary_keys_update_users_ads_removed
             split: option.splits)
next
  case (PostTasks title)
  with assms show ?thesis
    by (auto simp: post_tasks_def primary_keys_insert_task
             split: option.splits sum.splits prod.splits)
next
  case (DeleteTasksId tid)
  with assms show ?thesis
    by (auto simp: delete_tasks_id_def primary_keys_delete_task split: option.splits)
next
  case (PostTasksIdSubtasks tid title)
  with assms show ?thesis
    by (auto simp: post_tasks_id_subtasks_def primary_keys_insert_subtask
             split: option.splits sum.splits prod.splits)
next
  case (PatchSubtasksId sid completed photo)
  with assms show ?thesis
    by (auto simp: patch_subtasks_id_def Let_def primary_keys_update_subtask
                   primary_keys_update_subtask_with_photo
             split: option.splits)
qed (use assms in auto)

subsection \<open>Sessions, user rows and the settings row\<close>

text \<open>
  A session begins with a successful login callback, which stores the reply's body in
  the session and leaves a user row with the body's id. When the body has an id, the
  session user has a row from then on, for no request removes a user id. When it has
  none (an error body), the row has a NULL id and no statement of a later request
  finds it: the session user has no row. No request touches the settings table, and
  the start-up script leaves an \<open>ads_removed\<close> row.
\<close>

lemma user_ids_upsert_user:
  "upsert_user g d = Inr d' \<Longrightarrow>
   map u_id (users d')
   = (if list_ex (\<lambda>u. sql_eq (u_id u) (p_id g)) (users d) then map u_id (users d)
      else map u_id (users d) @ [p_id g])"
  by (auto simp: upsert_user_def map_key_unchanged split: if_splits)

lemma login_creates_user_row:
  assumes "get_auth_google_callback ex sess d = (AuthSuccessPage, sess', d')"
  shows "\<exists>g. sess' = Some g \<and> p_id g \<in> set (map u_id (users d'))"
proof (cases ex)
  case FetchFailed
  with assms show ?thesis by (simp add: get_auth_google_callback_def)
next
  case (GoogleUser g)
  with assms have up: "upsert_user g d = Inr d'" and sess: "sess' = Some g"
    by (auto simp: get_auth_google_callback_def split: sum.splits)
  have "p_id g \<in> set (map u_id (users d'))"
    unfolding user_ids_upsert_user [OF up]
    by (cases "p_id g") (force simp: list_ex_iff)+
  with sess show ?thesis by simp
qed

lemma select_user_None [simp]: "select_user None d = None"
  by (simp add: select_user_def find_None_iff)

lemma update_users_ads_removed_None [simp]: "update_users_ads_removed None d = d"
  by (simp add: update_users_ads_removed_def map_idI)

lemma users_insert_task: "insert_task now uid title d = Inr (i, d') \<Longrightarrow> users d' = users d"
  by (auto simp: insert_task_def Let_def split: option.splits if_splits prod.splits)

lemma users_insert_subtask: "insert_subtask tid title d = Inr (i, d') \<Longrightarrow> users d' = users d"
  by (auto simp: insert_subtask_def Let_def split: option.splits if_splits)

lemma user_ids_handle:
  assumes "handle ts nowiso r sess d = (resp, sess', d')"
  shows "set (map u_id (users d)) \<subseteq> set (map u_id (users d'))"
proof (cases r)
  case (GetAuthGoogleCallback ex)
  show ?thesis
  proof (cases "\<exists>g d1. ex = GoogleUser g \<and> upsert_user g d = Inr d1")
    case True
    then obtain g d1 where ex: "ex = GoogleUser g" and up: "upsert_user g d = Inr d1"
      by blast
    with GetAuthGoogleCallback assms have "d' = d1"
      by (simp add: get_auth_google_callback_def)
    with user_ids_upsert_user [OF up] show ?thesis
      by (auto split: if_splits)
  next
    case False
    with GetAuthGoogleCallback assms have "d' = d"
      by (auto simp: get_auth_google_callback_def split: exchange.splits sum.splits)
    then show ?thesis by simp
  qed
next
  case PostSettingsRemoveAds
  with assms have "map u_id (users d') = map u_id (users d)"
    by (auto simp: post_settings_remove_ads_def update_users_ads_removed_def
                   map_key_unchanged split: option.splits)
  then show ?thesis by simp
next
  case (PostTasks title)
  with assms have "users d' = users d"
    by (auto simp: post_tasks_def users_insert_task
             split: option.splits sum.splits prod.splits)
  then show ?thesis by simp
next
  case (DeleteTasksId tid)
  with assms have "users d' = users d"
    by (auto simp: delete_tasks_id_def delete_task_def split: option.splits)
  then show ?thesis by simp
next
  case (PostTasksIdSubtasks tid title)
  with assms have "users d' = users d"
    by (auto simp: post_tasks_id_subtasks_def users_insert_subtask
             split: option.splits sum.splits prod.splits)
  then show ?thesis by simp
next
  case (PatchSubtasksId sid completed photo)
  with assms have "users d' = users d"
    by (auto simp: patch_subtasks_id_def Let_def update_subtask_def
                   update_subtask_with_photo_def split: option.splits)
  then show ?thesis by simp
qed (use assms in auto)

lemma settings_handle:
  assumes "handle ts nowiso r sess d = (resp, sess', d')"
  shows "settings d' = settings d"
proof (cases r)
  case (GetAuthGoogleCallback ex)
  with assms show ?thesis
    by (auto simp: get_auth_google_callback_def upsert_user_def
             split: exchange.splits sum.splits if_splits)
next
  case PostSettingsRemoveAds
  with assms show ?thesis
    by (auto simp: post_settings_remove_ads_def update_users_ads_removed_def
             split: option.splits)
next
  case (PostTasks title)
  with assms show ?thesis
    by (auto simp: post_tasks_def insert_task_def Let_def
             split: option.splits sum.splits prod.splits if_splits)
next
  case (DeleteTasksId tid)
  with assms show ?thesis
    by (auto simp: delete_tasks_id_def delete_task_def split: option.splits)
next
  case (PostTasksIdSubtasks tid title)
  with assms show ?thesis
    by (auto simp: post_tasks_id_subtasks_def insert_subtask_def Let_def
             split: option.splits sum.splits prod.splits if_splits)
next
  case (PatchSubtasksId sid completed photo)
  with assms show ?thesis
    by (auto simp: patch_subtasks_id_def Let_def update_subtask_def
                   update_subtask_with_photo_def split: option.splits)
qed (use assms in auto)

lemma settings_row_after_start:
  "map_of (settings (insert_or_ignore_settings d)) ''ads_removed'' \<noteq> None"
  by (auto simp: insert_or_ignore_settings_def map_add_def split: option.splits)

section \<open>Settings\<close>


lemma find_map_if:
  assumes "\<And>x. P (g x) = P x"
  shows "find P (map (\<lambda>y. if P y then g y else y) xs) = map_option g (find P xs)"
  using assms by (induction xs) auto

lemma find_map_if_key:
  assumes "\<And>x. k (g x) = k x"
  shows "find (\<lambda>y. k y = a) (map (\<lambda>y. if k y = a then g y else y) xs)
         = map_option g (find (\<lambda>y. k y = a) xs)"
  using assms by (induction xs) auto






lemma select_user_row:
  "primary_keys d \<Longrightarrow> u \<in> set (users d) \<Longrightarrow> u_id u = Some i \<Longrightarrow> select_user (Some i) d = Some u"
  by (simp add: primary_keys_def select_user_def find_by_opt_key)

text \<open>
  Claim C8. \<open>GET /api/settings\<close> with a session user answers that user's own
  \<open>ads_removed\<close> flag; without one it answers the \<open>ads_removed\<close> row of the settings
  table; and two stores that agree on that row give the same answer to a caller without
  a session, whatever their users tables hold.
\<close>

theorem get_settings_own_flag_or_global:
  "(primary_keys d \<and> u \<in> set (users d) \<and> sql_eq (u_id u) (p_id p)
      \<longrightarrow> get_settings (Some p) d = SettingsJson (u_ads_removed u = 1))
   \<and> (map_of (settings d) ''ads_removed'' = Some v
      \<longrightarrow> get_settings None d = SettingsJson (v = ''true''))
   \<and> (map_of (settings d) ''ads_removed'' = map_of (settings d2) ''ads_removed''
      \<longrightarrow> get_settings None d = get_settings None d2)"
proof (intro conjI impI)
  assume h: "primary_keys d \<and> u \<in> set (users d) \<and> sql_eq (u_id u) (p_id p)"
  then have "\<exists>i. p_id p = Some i \<and> u_id u = Some i"
    by (cases "p_id p") simp_all
  then obtain i where "p_id p = Some i" and "u_id u = Some i"
    by blast
  with h have "select_user (p_id p) d = Some u"
    using select_user_row [of d u i] by simp
  then show "get_settings (Some p) d = SettingsJson (u_ads_removed u = 1)"
    by (simp add: get_settings_def)
next
  assume "map_of (settings d) ''ads_removed'' = Some v"
  then show "get_settings None d = SettingsJson (v = ''true'')"
    by (simp add: get_settings_def)
next
  assume "map_of (settings d) ''ads_removed'' = map_of (settings d2) ''ads_removed''"
  then show "get_settings None d = get_settings None d2"
    by (simp add: get_settings_def)
qed

theorem get_settings_own_flag_or_global_witness:
  "primary_keys demo_db
   \<and> hd (users demo_db) \<in> set (users demo_db)
   \<and> sql_eq (u_id (hd (users demo_db))) (p_id alice)
   \<and> u_ads_removed (hd (users demo_db)) = 1
   \<and> get_settings (Some alice) demo_db = SettingsJson True
   \<and> map_of (settings demo_db) ''ads_removed'' = Some ''false''
   \<and> get_settings None demo_db = SettingsJson False
   \<and> map_of (settings demo_db) ''ads_removed''
       = map_of (settings (update_users_ads_removed (Some ''202'') demo_db)) ''ads_removed''
   \<and> users demo_db \<noteq> users (update_users_ads_removed (Some ''202'') demo_db)
   \<and> get_settings None demo_db
       = get_settings None (update_users_ads_removed (Some ''202'') demo_db)"
proof -
  have a: "primary_keys demo_db" by code_simp
  have b: "hd (users demo_db) \<in> set (users demo_db)" by (simp add: demo_db_def)
  have c: "sql_eq (u_id (hd (users demo_db))) (p_id alice)"
    by (simp add: demo_db_def alice_def)
  have c': "u_ads_removed (hd (users demo_db)) = 1" by (simp add: demo_db_def)
  have e: "map_of (settings demo_db) ''ads_removed'' = Some ''false''"
    by (simp add: demo_db_def)
  have f: "map_of (settings demo_db) ''ads_removed''
       = map_of (settings (update_users_ads_removed (Some ''202'') demo_db)) ''ads_removed''"
    by (simp add: update_users_ads_removed_def)
  have g: "users demo_db \<noteq> users (update_users_ads_removed (Some ''202'') demo_db)"
    by (simp add: update_users_ads_removed_def demo_db_def)
  note t = get_settings_own_flag_or_global
         [of demo_db "hd (users demo_db)" alice "''false''"
             "update_users_ads_removed (Some ''202'') demo_db"]
  from t a b c c' have r1: "get_settings (Some alice) demo_db = SettingsJson True"
    by simp
  from t e have r2: "get_settings None demo_db = SettingsJson False"
    by simp
  from t f have r3: "get_settings None demo_db
                     = get_settings None (update_users_ads_removed (Some ''202'') demo_db)"
    by blast
  show ?thesis
    by (intro conjI) (fact a b c c' e f g r1 r2 r3)+
qed

section \<open>Login\<close>

lemma upsert_user_existing:
  assumes "upsert_user g d = Inr d'" and "u \<in> set (users d)" and "sql_eq (u_id u) (p_id g)"
  shows "d' = d\<lparr>users :=
                  map (\<lambda>u. if sql_eq (u_id u) (p_id g)
                            then u\<lparr>u_email := p_email g, u_name := p_name g,
                                   u_picture := p_picture g\<rparr>
                            else u) (users d)\<rparr>"
  using assms by (auto simp: upsert_user_def list_ex_iff split: if_splits)

text \<open>
  Claim C10. When the login callback succeeds for a profile whose id is that of a user
  row, the row keeps its \<open>ads_removed\<close> flag and takes the profile's email, name and
  picture; every other user row, and the tasks, subtasks and settings tables, are as
  before.
\<close>

theorem login_keeps_ads_removed:
  assumes "primary_keys d"
      and "u \<in> set (users d)"
      and "sql_eq (u_id u) (p_id g)"
      and "get_auth_google_callback (GoogleUser g) sess d = (AuthSuccessPage, sess', d')"
  shows "select_user (p_id g) d'
           = Some (u\<lparr>u_email := p_email g, u_name := p_name g, u_picture := p_picture g\<rparr>)
       \<and> (\<exists>u'. select_user (p_id g) d' = Some u' \<and> u_ads_removed u' = u_ads_removed u)
       \<and> map u_id (users d') = map u_id (users d)
       \<and> (\<forall>v\<in>set (users d). u_id v \<noteq> p_id g \<longrightarrow>
             v \<in> set (users d') \<and> (u_id v \<noteq> None \<longrightarrow> select_user (u_id v) d' = Some v))
       \<and> tasks d' = tasks d \<and> subtasks d' = subtasks d \<and> settings d' = settings d
       \<and> sess' = Some g"
proof -
  let ?g = "\<lambda>u. u\<lparr>u_email := p_email g, u_name := p_name g, u_picture := p_picture g\<rparr>"
  from assms(3) have "\<exists>i. p_id g = Some i \<and> u_id u = Some i"
    by (cases "p_id g") simp_all
  then obtain i where pid: "p_id g = Some i" and uid: "u_id u = Some i"
    by blast
  from assms(4) have up: "upsert_user g d = Inr d'" and sess: "sess' = Some g"
    by (auto simp: get_auth_google_callback_def split: sum.splits)
  from upsert_user_existing [OF up assms(2,3)]
  have d': "d' = d\<lparr>users := map (\<lambda>u. if sql_eq (u_id u) (p_id g) then ?g u else u) (users d)\<rparr>" .
  have sel: "select_user (p_id g) d = Some u"
    using select_user_row [OF assms(1,2) uid] pid by simp
  have own: "select_user (p_id g) d' = Some (?g u)"
    using sel by (simp add: d' select_user_def find_map_if)
  have ids: "map u_id (users d') = map u_id (users d)"
    by (simp add: d' map_key_unchanged)
  have keys': "primary_keys d'"
    using primary_keys_upsert_user [OF assms(1) up] .
  have others: "v \<in> set (users d') \<and> (u_id v \<noteq> None \<longrightarrow> select_user (u_id v) d' = Some v)"
    if "v \<in> set (users d)" "u_id v \<noteq> p_id g" for v
  proof -
    from that have "\<not> sql_eq (u_id v) (p_id g)" by (simp add: sql_eq_def)
    with that(1) have mem: "v \<in> set (users d')" by (force simp: d')
    have "select_user (u_id v) d' = Some v" if "u_id v \<noteq> None"
    proof -
      from that obtain k where "u_id v = Some k" by blast
      with select_user_row [OF keys' mem] show ?thesis by simp
    qed
    with mem show ?thesis by blast
  qed
  from own ids others sess show ?thesis by (simp add: d')
qed

theorem login_keeps_ads_removed_witness:
  "primary_keys demo_db
   \<and> hd (users demo_db) \<in> set (users demo_db)
   \<and> sql_eq (u_id (hd (users demo_db))) (p_id alice_relogin)
   \<and> u_ads_removed (hd (users demo_db)) = 1
   \<and> (\<exists>d'. get_auth_google_callback (GoogleUser alice_relogin) None demo_db
              = (AuthSuccessPage, Some alice_relogin, d')
         \<and> select_user (Some ''101'') d'
              = Some \<lparr>u_id = Some ''101'', u_email = Some ''alice@example.com'',
                      u_name = Some ''Alice L.'',
                      u_picture = Some ''https://lh3.example/a.png'', u_ads_removed = 1\<rparr>
         \<and> tasks d' = tasks demo_db)"
proof -
  have a: "primary_keys demo_db" by code_simp
  have b: "hd (users demo_db) \<in> set (users demo_db)" by (simp add: demo_db_def)
  have c: "sql_eq (u_id (hd (users demo_db))) (p_id alice_relogin)"
    by (simp add: demo_db_def alice_relogin_def)
  have c': "u_ads_removed (hd (users demo_db)) = 1" by (simp add: demo_db_def)
  obtain d' where e: "get_auth_google_callback (GoogleUser alice_relogin) None demo_db
              = (AuthSuccessPage, Some alice_relogin, d')"
    by (simp add: get_auth_google_callback_def upsert_user_def demo_db_def alice_relogin_def)
  have h: "hd (users demo_db)\<lparr>u_email := p_email alice_relogin, u_name := p_name alice_relogin,
              u_picture := p_picture alice_relogin\<rparr>
           = \<lparr>u_id = Some ''101'', u_email = Some ''alice@example.com'',
                      u_name = Some ''Alice L.'',
                      u_picture = Some ''https://lh3.example/a.png'', u_ads_removed = 1\<rparr>"
    by (simp add: demo_db_def alice_relogin_def)
  have i: "p_id alice_relogin = Some ''101''" by (simp add: alice_relogin_def)
  from login_keeps_ads_removed [OF a b c e]
  have r: "select_user (Some ''101'') d'
              = Some \<lparr>u_id = Some ''101'', u_email = Some ''alice@example.com'',
                      u_name = Some ''Alice L.'',
                      u_picture = Some ''https://lh3.example/a.png'', u_ads_removed = 1\<rparr>
           \<and> tasks d' = tasks demo_db"
    unfolding h i by blast
  show ?thesis
    by (intro conjI exI [where x = d']) (use a b c c' e r in \<open>simp_all\<close>)
qed

section \<open>Deleting tasks\<close>

lemma task_ids_distinct: "primary_keys d \<Longrightarrow> distinct (map t_id (tasks d))"
  by (simp add: primary_keys_def sorted_ids_distinct)

lemma subtask_ids_distinct: "primary_keys d \<Longrightarrow> distinct (map s_id (subtasks d))"
  by (simp add: primary_keys_def sorted_ids_distinct)

lemma same_key_same_row:
  "distinct (map f xs) \<Longrightarrow> x \<in> set xs \<Longrightarrow> y \<in> set xs \<Longrightarrow> f x = f y \<Longrightarrow> x = y"
  by (auto simp: distinct_map dest: inj_onD)

text \<open>
  Claim C2. When the task with the requested id belongs to another user than the
  session user, or no task has that id, \<open>DELETE /api/tasks/:id\<close> answers Forbidden
  and the store after the request is the store before it.
\<close>

theorem delete_tasks_id_not_owner_forbidden:
  assumes "primary_keys d"
      and "(\<exists>T\<in>set (tasks d). t_id T = tid \<and> p_id p \<noteq> Some (t_user_id T))
           \<or> tid \<notin> t_id ` set (tasks d)"
  shows "delete_tasks_id tid (Some p) d = (Forbidden, d)"
proof -
  have "\<not> (\<exists>t\<in>set (tasks d). t_id t = tid \<and> p_id p = Some (t_user_id t))"
  proof
    assume "\<exists>t\<in>set (tasks d). t_id t = tid \<and> p_id p = Some (t_user_id t)"
    then obtain t where t: "t \<in> set (tasks d)" "t_id t = tid" "p_id p = Some (t_user_id t)"
      by blast
    from assms(2) show False
    proof
      assume "\<exists>T\<in>set (tasks d). t_id T = tid \<and> p_id p \<noteq> Some (t_user_id T)"
      then obtain T where T: "T \<in> set (tasks d)" "t_id T = tid" "p_id p \<noteq> Some (t_user_id T)"
        by blast
      from same_key_same_row [OF task_ids_distinct [OF assms(1)] t(1) T(1)] t(2) T(2)
      have "t = T" by simp
      with t(3) T(3) show False by simp
    next
      assume "tid \<notin> t_id ` set (tasks d)"
      with t(1,2) show False by blast
    qed
  qed
  then have "select_task_of_user tid (p_id p) d = None"
    by (simp add: select_task_of_user_def find_None_iff)
  then show ?thesis by (simp add: delete_tasks_id_def)
qed

theorem delete_tasks_id_not_owner_forbidden_witness:
  "primary_keys demo_db
   \<and> (\<exists>T\<in>set (tasks demo_db). t_id T = 1 \<and> p_id bob \<noteq> Some (t_user_id T))
   \<and> delete_tasks_id 1 (Some bob) demo_db = (Forbidden, demo_db)
   \<and> 99 \<notin> t_id ` set (tasks demo_db)
   \<and> delete_tasks_id 99 (Some bob) demo_db = (Forbidden, demo_db)"
proof -
  have a: "primary_keys demo_db" by code_simp
  have b: "\<exists>T\<in>set (tasks demo_db). t_id T = 1 \<and> p_id bob \<noteq> Some (t_user_id T)"
    by (simp add: demo_db_def bob_def)
  have c: "99 \<notin> t_id ` set (tasks demo_db)" by (simp add: demo_db_def)
  from delete_tasks_id_not_owner_forbidden [of demo_db 1 bob]
       delete_tasks_id_not_owner_forbidden [of demo_db 99 bob] a b c
  show ?thesis by blast
qed

lemma select_task_of_user_owner:
  "T \<in> set (tasks d) \<Longrightarrow> uid = Some (t_user_id T) \<Longrightarrow> select_task_of_user (t_id T) uid d \<noteq> None"
  by (auto simp: select_task_of_user_def find_None_iff)

lemma subtasks_upsert_user: "upsert_user g d = Inr d' \<Longrightarrow> subtasks d' = subtasks d"
  by (auto simp: upsert_user_def split: if_splits)

lemma subtasks_insert_task: "insert_task now uid title d = Inr (i, d') \<Longrightarrow> subtasks d' = subtasks d"
  by (auto simp: insert_task_def Let_def split: option.splits if_splits prod.splits)

lemma subtasks_insert_subtask:
  "insert_subtask tid title d = Inr (i, d') \<Longrightarrow> set (subtasks d) \<subseteq> set (subtasks d')"
  by (auto simp: insert_subtask_def Let_def split: option.splits if_splits)

lemma subtask_ids_update_subtask:
  "map s_id (subtasks (update_subtask c at sid d)) = map s_id (subtasks d)"
  by (simp add: update_subtask_def map_key_unchanged)

lemma subtask_ids_update_subtask_with_photo:
  "map s_id (subtasks (update_subtask_with_photo c url at sid d)) = map s_id (subtasks d)"
  by (simp add: update_subtask_with_photo_def map_key_unchanged)

lemma subtask_ids_patch:
  "patch_subtasks_id now sid completed photo sess d = (resp, d')
   \<Longrightarrow> map s_id (subtasks d') = map s_id (subtasks d)"
  by (auto simp: patch_subtasks_id_def Let_def subtask_ids_update_subtask
                 subtask_ids_update_subtask_with_photo
           split: option.splits)

lemma removed_subtask_handle:
  assumes "handle ts nowiso r sess d = (resp, sess', d')"
      and "s \<in> set (subtasks d)"
      and "s_id s \<notin> s_id ` set (subtasks d')"
  shows "r = DeleteTasksId (s_task_id s)
         \<and> (\<exists>p. sess = Some p \<and> select_task_of_user (s_task_id s) (p_id p) d \<noteq> None)"
proof (cases r)
  case (GetAuthGoogleCallback ex)
  with assms(1) have "subtasks d' = subtasks d"
    by (auto simp: get_auth_google_callback_def subtasks_upsert_user
             split: exchange.splits sum.splits)
  with assms(2,3) show ?thesis by simp
next
  case PostSettingsRemoveAds
  with assms(1) have "subtasks d' = subtasks d"
    by (auto simp: post_settings_remove_ads_def update_users_ads_removed_def
             split: option.splits)
  with assms(2,3) show ?thesis by simp
next
  case (PostTasks title)
  with assms(1) have "subtasks d' = subtasks d"
    by (auto simp: post_tasks_def subtasks_insert_task
             split: option.splits sum.splits prod.splits)
  with assms(2,3) show ?thesis by simp
next
  case (DeleteTasksId tid)
  show ?thesis
  proof (cases sess)
    case None
    with DeleteTasksId assms show ?thesis by (simp add: delete_tasks_id_def)
  next
    case (Some p)
    show ?thesis
    proof (cases "select_task_of_user tid (p_id p) d")
      case None
      with Some DeleteTasksId assms show ?thesis by (simp add: delete_tasks_id_def)
    next
      case (Some task)
      with \<open>sess = Some p\<close> DeleteTasksId assms(1) have "d' = delete_task tid d"
        by (simp add: delete_tasks_id_def)
      with assms(2,3) have "s_task_id s = tid"
        by (auto simp: delete_task_def)
      with Some \<open>sess = Some p\<close> DeleteTasksId show ?thesis by simp
    qed
  qed
next
  case (PostTasksIdSubtasks tid title)
  with assms(1) have "set (subtasks d) \<subseteq> set (subtasks d')"
    by (auto simp: post_tasks_id_subtasks_def
             dest!: subtasks_insert_subtask
             split: option.splits sum.splits prod.splits)
  with assms(2,3) show ?thesis by blast
next
  case (PatchSubtasksId sid completed photo)
  with assms(1) have "map s_id (subtasks d') = map s_id (subtasks d)"
    by (auto split: prod.splits dest: subtask_ids_patch)
  then have "s_id ` set (subtasks d') = s_id ` set (subtasks d)"
    by (metis set_map)
  with assms(2,3) show ?thesis by blast
qed (use assms in auto)

text \<open>
  Claim C3. \<open>DELETE /api/tasks/:id\<close> on a task of the session user answers success
  and removes the task and every subtask whose \<open>task_id\<close> is its id (a later
  lookup of such a subtask's id finds nothing). And whenever a request of any kind
  leaves the store without a subtask id that was there before, the request was a
  \<open>DELETE /api/tasks/:id\<close> of that subtask's parent task by a session user who owns it.
\<close>

theorem delete_task_cascades_only_path:
  "(T \<in> set (tasks d) \<and> p_id p = Some (t_user_id T) \<longrightarrow>
      delete_tasks_id (t_id T) (Some p) d = (SuccessJson, delete_task (t_id T) d)
      \<and> t_id T \<notin> t_id ` set (tasks (delete_task (t_id T) d))
      \<and> t_id T \<notin> s_task_id ` set (subtasks (delete_task (t_id T) d))
      \<and> (primary_keys d \<longrightarrow>
           (\<forall>c\<in>set (subtasks d). s_task_id c = t_id T
               \<longrightarrow> select_subtask (s_id c) (delete_task (t_id T) d) = None)))
   \<and> (handle ts nowiso r sess d = (resp, sess', d') \<and> s \<in> set (subtasks d)
        \<and> s_id s \<notin> s_id ` set (subtasks d')
      \<longrightarrow> r = DeleteTasksId (s_task_id s)
          \<and> (\<exists>q. sess = Some q \<and> select_task_of_user (s_task_id s) (p_id q) d \<noteq> None))"
proof (intro conjI impI ballI)
  assume own: "T \<in> set (tasks d) \<and> p_id p = Some (t_user_id T)"
  then have "select_task_of_user (t_id T) (p_id p) d \<noteq> None"
    using select_task_of_user_owner by blast
  then show "delete_tasks_id (t_id T) (Some p) d = (SuccessJson, delete_task (t_id T) d)"
    by (auto simp: delete_tasks_id_def)
  show "t_id T \<notin> t_id ` set (tasks (delete_task (t_id T) d))"
    by (auto simp: delete_task_def)
  show "t_id T \<notin> s_task_id ` set (subtasks (delete_task (t_id T) d))"
    by (auto simp: delete_task_def)
  fix c
  assume keys: "primary_keys d" and c: "c \<in> set (subtasks d)" "s_task_id c = t_id T"
  show "select_subtask (s_id c) (delete_task (t_id T) d) = None"
  proof -
    have "\<not> (\<exists>x\<in>set (subtasks (delete_task (t_id T) d)). s_id x = s_id c)"
    proof
      assume "\<exists>x\<in>set (subtasks (delete_task (t_id T) d)). s_id x = s_id c"
      then obtain x where x: "x \<in> set (subtasks d)" "s_task_id x \<noteq> t_id T" "s_id x = s_id c"
        by (auto simp: delete_task_def)
      from same_key_same_row [OF subtask_ids_distinct [OF keys] x(1) c(1) x(3)]
      have "x = c" .
      with x(2) c(2) show False by simp
    qed
    then show ?thesis by (simp add: select_subtask_def find_None_iff)
  qed
next
  assume "handle ts nowiso r sess d = (resp, sess', d') \<and> s \<in> set (subtasks d)
        \<and> s_id s \<notin> s_id ` set (subtasks d')"
  then show "r = DeleteTasksId (s_task_id s)"
    and "\<exists>q. sess = Some q \<and> select_task_of_user (s_task_id s) (p_id q) d \<noteq> None"
    using removed_subtask_handle [of ts nowiso r sess d resp sess' d' s] by blast+
qed

theorem delete_task_cascades_only_path_witness:
  "hd (tasks demo_db) \<in> set (tasks demo_db)
   \<and> p_id alice = Some (t_user_id (hd (tasks demo_db)))
   \<and> t_id (hd (tasks demo_db)) = 1
   \<and> primary_keys demo_db
   \<and> hd (subtasks demo_db) \<in> set (subtasks demo_db)
   \<and> s_task_id (hd (subtasks demo_db)) = 1
   \<and> handle ''2024-05-06 10:00:00'' ''2024-05-06T10:00:00.000Z'' (DeleteTasksId 1)
        (Some alice) demo_db = (SuccessJson, Some alice, delete_task 1 demo_db)
   \<and> s_id (hd (subtasks demo_db)) \<notin> s_id ` set (subtasks (delete_task 1 demo_db))
   \<and> delete_tasks_id 1 (Some alice) demo_db = (SuccessJson, delete_task 1 demo_db)
   \<and> 1 \<notin> t_id ` set (tasks (delete_task 1 demo_db))
   \<and> 1 \<notin> s_task_id ` set (subtasks (delete_task 1 demo_db))
   \<and> select_subtask (s_id (hd (subtasks demo_db))) (delete_task 1 demo_db) = None
   \<and> (\<exists>q. Some alice = Some q \<and> select_task_of_user 1 (p_id q) demo_db \<noteq> None)"
proof -
  have a: "hd (tasks demo_db) \<in> set (tasks demo_db)" by (simp add: demo_db_def)
  have b: "p_id alice = Some (t_user_id (hd (tasks demo_db)))" by (simp add: demo_db_def alice_def)
  have c: "t_id (hd (tasks demo_db)) = 1" by (simp add: demo_db_def)
  have e: "primary_keys demo_db" by code_simp
  have f: "hd (subtasks demo_db) \<in> set (subtasks demo_db)" by (simp add: demo_db_def)
  have g: "s_task_id (hd (subtasks demo_db)) = 1" by (simp add: demo_db_def)
  have h: "handle ''2024-05-06 10:00:00'' ''2024-05-06T10:00:00.000Z'' (DeleteTasksId 1)
        (Some alice) demo_db = (SuccessJson, Some alice, delete_task 1 demo_db)"
    by (simp add: delete_tasks_id_def select_task_of_user_def demo_db_def alice_def)
  have i: "s_id (hd (subtasks demo_db)) \<notin> s_id ` set (subtasks (delete_task 1 demo_db))"
    by (simp add: delete_task_def demo_db_def)
  note t = delete_task_cascades_only_path
      [of "hd (tasks demo_db)" demo_db alice "''2024-05-06 10:00:00''"
          "''2024-05-06T10:00:00.000Z''" "DeleteTasksId 1" "Some alice" SuccessJson
          "Some alice" "delete_task 1 demo_db" "hd (subtasks demo_db)"]
  from t a b have r1:
    "delete_tasks_id (t_id (hd (tasks demo_db))) (Some alice) demo_db
       = (SuccessJson, delete_task (t_id (hd (tasks demo_db))) demo_db)
     \<and> t_id (hd (tasks demo_db)) \<notin> t_id ` set (tasks (delete_task (t_id (hd (tasks demo_db))) demo_db))
     \<and> t_id (hd (tasks demo_db)) \<notin> s_task_id ` set (subtasks (delete_task (t_id (hd (tasks demo_db))) demo_db))"
    by blast
  from t a b e f g c have r2:
    "select_subtask (s_id (hd (subtasks demo_db))) (delete_task (t_id (hd (tasks demo_db))) demo_db) = None"
    by simp
  from t h f i g have r3:
    "\<exists>q. Some alice = Some q \<and> select_task_of_user 1 (p_id q) demo_db \<noteq> None"
    by simp
  from a b c e f g h i r1 [unfolded c] r2 [unfolded c] r3 show ?thesis by blast
qed

section \<open>Listing tasks and photos\<close>

lemma distinct_map_insert_desc:
  "distinct (map g (insert_desc f x xs)) = (g x \<notin> g ` set xs \<and> distinct (map g xs))"
  by (induction xs) (auto simp: set_insert_desc)

lemma distinct_map_order_by_desc:
  "distinct (map g (order_by_desc f xs)) = distinct (map g xs)"
  by (induction xs)
     (simp_all add: order_by_desc_def distinct_map_insert_desc
                    set_order_by_desc [unfolded order_by_desc_def])





lemma set_subtasks_join_tasks:
  "set (subtasks_join_tasks d)
   = {(s, t). s \<in> set (subtasks d) \<and> t \<in> set (tasks d) \<and> s_task_id s = t_id t}"
  by (auto simp: subtasks_join_tasks_def)

lemma filter_key_at_most_one:
  "distinct (map f xs) \<Longrightarrow> length (filter (\<lambda>x. k = f x) xs) \<le> 1"
proof (induction xs)
  case Nil
  show ?case by simp
next
  case (Cons x xs)
  show ?case
  proof (cases "k = f x")
    case True
    with Cons.prems have "filter (\<lambda>y. k = f y) xs = []"
      by (auto simp: filter_empty_conv)
    with True show ?thesis by simp
  next
    case False
    with Cons show ?thesis by simp
  qed
qed

lemma distinct_fst_join:
  assumes "distinct xs" and "\<And>x. length (g x) \<le> 1"
  shows "distinct (map fst (concat (map (\<lambda>x. map (\<lambda>y. (x, y)) (g x)) xs)))"
  using assms(1)
proof (induction xs)
  case Nil
  show ?case by simp
next
  case (Cons x xs)
  have one: "distinct (map fst (map (\<lambda>y. (x, y)) (g x)))"
    using assms(2) [of x] by (cases "g x") (auto simp: o_def)
  have rest: "fst ` set (concat (map (\<lambda>x. map (\<lambda>y. (x, y)) (g x)) xs)) \<subseteq> set xs"
    by auto
  have here: "fst ` set (map (\<lambda>y. (x, y)) (g x)) \<subseteq> {x}"
    by auto
  from Cons one rest here show ?case
    by (auto simp del: map_map)
qed

lemma subtasks_distinct: "primary_keys d \<Longrightarrow> distinct (subtasks d)"
  using subtask_ids_distinct distinct_map by blast

lemma distinct_fst_subtasks_join_tasks:
  assumes "primary_keys d"
  shows "distinct (map fst (subtasks_join_tasks d))"
  unfolding subtasks_join_tasks_def
  by (rule distinct_fst_join [OF subtasks_distinct [OF assms]])
     (rule filter_key_at_most_one [OF task_ids_distinct [OF assms]])

text \<open>
  Claim C5. For an authenticated session \<open>GET /api/photos\<close> answers a list that
  holds each subtask with a photo URL whose parent task belongs to the session user
  once and no other subtask, each with the title of its parent task, in descending
  order of \<open>completed_at\<close> (rows without a completion time last).
\<close>

theorem get_photos_owned_with_title_sorted:
  assumes "primary_keys d"
  shows "\<exists>rows. get_photos (Some p) d = PhotosJson rows
    \<and> set (map fst rows)
        = {s \<in> set (subtasks d). s_photo_url s \<noteq> None
             \<and> (\<exists>t\<in>set (tasks d). t_id t = s_task_id s \<and> p_id p = Some (t_user_id t))}
    \<and> distinct (map fst rows)
    \<and> (\<forall>(s, task_title)\<in>set rows.
          \<exists>t\<in>set (tasks d). t_id t = s_task_id s \<and> t_title t = task_title)
    \<and> sorted_wrt (\<lambda>a b. s_completed_at (fst b) \<le> s_completed_at (fst a)) rows"
proof -
  let ?sel = "filter (\<lambda>(s, t). p_id p = Some (t_user_id t) \<and> s_photo_url s \<noteq> None)
                (subtasks_join_tasks d)"
  let ?ann = "map (\<lambda>(s, t). (s, t_title t)) ?sel"
  let ?rows = "order_by_desc (\<lambda>row. s_completed_at (fst row)) ?ann"
  have fst_ann: "map fst ?ann = map fst ?sel"
    by (simp add: o_def split_def)
  have "get_photos (Some p) d = PhotosJson ?rows"
    by (simp add: get_photos_def)
  moreover have "set (map fst ?rows)
        = {s \<in> set (subtasks d). s_photo_url s \<noteq> None
             \<and> (\<exists>t\<in>set (tasks d). t_id t = s_task_id s \<and> p_id p = Some (t_user_id t))}"
    by (auto simp: set_order_by_desc set_subtasks_join_tasks image_iff) force
  moreover have "distinct (map fst ?rows)"
    using distinct_fst_subtasks_join_tasks [OF assms]
    by (simp only: distinct_map_order_by_desc fst_ann distinct_map_filter)
  moreover have "\<forall>(s, task_title)\<in>set ?rows.
          \<exists>t\<in>set (tasks d). t_id t = s_task_id s \<and> t_title t = task_title"
    by (auto simp: set_order_by_desc set_subtasks_join_tasks)
  moreover have "sorted_wrt (\<lambda>a b. s_completed_at (fst b) \<le> s_completed_at (fst a)) ?rows"
    by (rule sorted_order_by_desc)
  ultimately show ?thesis by blast
qed

theorem get_photos_owned_with_title_sorted_witness:
  "primary_keys demo_db
   \<and> (\<exists>rows. get_photos (Some alice) demo_db = PhotosJson rows
        \<and> map (\<lambda>(s, task_title). (s_id s, task_title, s_completed_at s)) rows
            = [(5, ''Swim'', Some ''2024-05-04T09:00:00.000Z''),
               (2, ''Run'', Some ''2024-05-03T10:00:00.000Z'')]
        \<and> distinct (map fst rows)
        \<and> sorted_wrt (\<lambda>a b. s_completed_at (fst b) \<le> s_completed_at (fst a)) rows)"
proof -
  have a: "primary_keys demo_db" by code_simp
  from get_photos_owned_with_title_sorted [OF a, of alice]
  obtain rows where rows: "get_photos (Some alice) demo_db = PhotosJson rows"
    and r1: "distinct (map fst rows)"
    and r2: "sorted_wrt (\<lambda>a b. s_completed_at (fst b) \<le> s_completed_at (fst a)) rows"
    by blast
  have "(case get_photos (Some alice) demo_db of
           PhotosJson rs \<Rightarrow> map (\<lambda>(s, task_title). (s_id s, task_title, s_completed_at s)) rs
         | _ \<Rightarrow> [])
        = [(5, ''Swim'', Some ''2024-05-04T09:00:00.000Z''),
           (2, ''Run'', Some ''2024-05-03T10:00:00.000Z'')]"
    by code_simp
  with rows have r3: "map (\<lambda>(s, task_title). (s_id s, task_title, s_completed_at s)) rows
            = [(5, ''Swim'', Some ''2024-05-04T09:00:00.000Z''),
               (2, ''Run'', Some ''2024-05-03T10:00:00.000Z'')]"
    by simp
  show ?thesis
    by (intro conjI exI [where x = rows]) (fact a rows r1 r2 r3)+
qed

section \<open>Completing subtasks\<close>

lemma select_subtask_of_user_owned:
  assumes "s \<in> set (subtasks d)" and "T \<in> set (tasks d)"
      and "t_id T = s_task_id s" and "uid = Some (t_user_id T)"
  shows "select_subtask_of_user (s_id s) uid d \<noteq> None"
proof -
  from assms have "(s, T) \<in> set (subtasks_join_tasks d)"
    by (simp add: set_subtasks_join_tasks)
  with assms(4) show ?thesis
    by (auto simp: select_subtask_of_user_def find_None_iff)
qed

lemma select_subtask_row:
  "primary_keys d \<Longrightarrow> s \<in> set (subtasks d) \<Longrightarrow> select_subtask (s_id s) d = Some s"
  by (simp add: select_subtask_def find_by_key subtask_ids_distinct)

lemma select_subtask_update_subtask:
  "select_subtask sid (update_subtask c at sid d)
   = map_option (\<lambda>s. s\<lparr>s_completed := c, s_completed_at := at\<rparr>) (select_subtask sid d)"
  by (simp add: select_subtask_def update_subtask_def find_map_if_key)

lemma select_subtask_update_subtask_with_photo:
  "select_subtask sid (update_subtask_with_photo c url at sid d)
   = map_option (\<lambda>s. s\<lparr>s_completed := c, s_photo_url := Some url, s_completed_at := at\<rparr>)
       (select_subtask sid d)"
  by (simp add: select_subtask_def update_subtask_with_photo_def find_map_if_key)

lemma patch_no_photo:
  assumes "primary_keys d" and "s \<in> set (subtasks d)" and "T \<in> set (tasks d)"
      and "t_id T = s_task_id s" and "p_id p = Some (t_user_id T)"
  shows "patch_subtasks_id now (s_id s) completed None (Some p) d
         = (SubtaskJson
              (Some (s\<lparr>s_completed := (if is_true completed then 1 else 0),
                       s_completed_at := (if is_true completed then Some now else None)\<rparr>)),
            update_subtask (if is_true completed then 1 else 0)
              (if is_true completed then Some now else None) (s_id s) d)"
  using select_subtask_of_user_owned [OF assms(2-5)] select_subtask_row [OF assms(1,2)]
  by (auto simp: patch_subtasks_id_def Let_def select_subtask_update_subtask)

lemma patch_photo:
  assumes "primary_keys d" and "s \<in> set (subtasks d)" and "T \<in> set (tasks d)"
      and "t_id T = s_task_id s" and "p_id p = Some (t_user_id T)"
  shows "patch_subtasks_id now (s_id s) completed (Some filename) (Some p) d
         = (SubtaskJson
              (Some (s\<lparr>s_completed := 1, s_photo_url := Some (''/uploads/'' @ filename),
                       s_completed_at := (if is_true completed then Some now else None)\<rparr>)),
            update_subtask_with_photo 1 (''/uploads/'' @ filename)
              (if is_true completed then Some now else None) (s_id s) d)"
  using select_subtask_of_user_owned [OF assms(2-5)] select_subtask_row [OF assms(1,2)]
  by (auto simp: patch_subtasks_id_def Let_def select_subtask_update_subtask_with_photo)

lemma post_tasks_id_subtasks_owned:
  assumes "T \<in> set (tasks d)" and "p_id p = Some (t_user_id T)"
  shows "post_tasks_id_subtasks (t_id T) (Some title) (Some p) d
         = (NewSubtaskJson (next_rowid (subtasks_seq d) (map s_id (subtasks d))) (t_id T)
              (Some title) 0,
            d\<lparr>subtasks := subtasks d @
                 [\<lparr>s_id = next_rowid (subtasks_seq d) (map s_id (subtasks d)),
                   s_task_id = t_id T, s_title = title, s_completed = 0,
                   s_photo_url = None, s_completed_at = None\<rparr>],
               subtasks_seq := next_rowid (subtasks_seq d) (map s_id (subtasks d))\<rparr>)"
proof -
  from assms have "select_task_of_user (t_id T) (p_id p) d \<noteq> None"
    by (rule select_task_of_user_owner)
  moreover from assms(1) have "list_ex (\<lambda>t. t_id t = t_id T) (tasks d)"
    by (auto simp: list_ex_iff)
  ultimately show ?thesis
    by (auto simp: post_tasks_id_subtasks_def insert_subtask_def Let_def)
qed

text \<open>
  Claim C6. \<open>PATCH /api/subtasks/:id\<close> without an image, on a subtask whose parent
  task belongs to the session user, answers the stored row after the update: its
  \<open>completed\<close> is 1 when the form's \<open>completed\<close> field reads true (the text
  \<open>true\<close> or \<open>1\<close>) and 0 otherwise, its \<open>completed_at\<close> is the current time in
  the first case and NULL in the second, and its other columns are as before. In
  particular, a subtask just created under an owned task and patched with
  \<open>completed=true\<close> and no image reads \<open>completed = 1\<close>, \<open>photo_url\<close> NULL and
  \<open>completed_at\<close> the current time.
\<close>

theorem patch_without_photo_sets_completed:
  "(primary_keys d \<and> s \<in> set (subtasks d) \<and> T \<in> set (tasks d)
      \<and> t_id T = s_task_id s \<and> p_id p = Some (t_user_id T) \<longrightarrow>
      (\<exists>u d'. patch_subtasks_id now (s_id s) completed None (Some p) d
                 = (SubtaskJson (Some u), d')
         \<and> select_subtask (s_id s) d' = Some u
         \<and> s_completed u = (if is_true completed then 1 else 0)
         \<and> (s_completed_at u \<noteq> None \<longleftrightarrow> is_true completed)
         \<and> (is_true completed \<longrightarrow> s_completed_at u = Some now)
         \<and> s_photo_url u = s_photo_url s
         \<and> s_id u = s_id s \<and> s_task_id u = s_task_id s \<and> s_title u = s_title s))
   \<and> is_true (Some ''true'') \<and> \<not> is_true (Some ''false'')
   \<and> (primary_keys d \<and> T \<in> set (tasks d) \<and> p_id p = Some (t_user_id T) \<longrightarrow>
      (\<exists>i d1 d2. post_tasks_id_subtasks (t_id T) (Some ''step1'') (Some p) d
                    = (NewSubtaskJson i (t_id T) (Some ''step1'') 0, d1)
         \<and> patch_subtasks_id now i (Some ''true'') None (Some p) d1
             = (SubtaskJson
                  (Some \<lparr>s_id = i, s_task_id = t_id T, s_title = ''step1'', s_completed = 1,
                         s_photo_url = None, s_completed_at = Some now\<rparr>), d2)))"
proof (intro conjI impI)
  assume h: "primary_keys d \<and> s \<in> set (subtasks d) \<and> T \<in> set (tasks d)
      \<and> t_id T = s_task_id s \<and> p_id p = Some (t_user_id T)"
  let ?u = "s\<lparr>s_completed := (if is_true completed then 1 else 0),
              s_completed_at := (if is_true completed then Some now else None)\<rparr>"
  let ?d' = "update_subtask (if is_true completed then 1 else 0)
              (if is_true completed then Some now else None) (s_id s) d"
  from h have run: "patch_subtasks_id now (s_id s) completed None (Some p) d
                    = (SubtaskJson (Some ?u), ?d')"
    using patch_no_photo [of d s T p now completed] by blast
  from h have "select_subtask (s_id s) d = Some s"
    using select_subtask_row by blast
  then have sel: "select_subtask (s_id s) ?d' = Some ?u"
    by (simp add: select_subtask_update_subtask)
  show "\<exists>u d'. patch_subtasks_id now (s_id s) completed None (Some p) d
                 = (SubtaskJson (Some u), d')
         \<and> select_subtask (s_id s) d' = Some u
         \<and> s_completed u = (if is_true completed then 1 else 0)
         \<and> (s_completed_at u \<noteq> None \<longleftrightarrow> is_true completed)
         \<and> (is_true completed \<longrightarrow> s_completed_at u = Some now)
         \<and> s_photo_url u = s_photo_url s
         \<and> s_id u = s_id s \<and> s_task_id u = s_task_id s \<and> s_title u = s_title s"
    by (rule exI [where x = ?u], rule exI [where x = ?d']) (simp add: run sel)
next
  show "is_true (Some ''true'')" by (simp add: is_true_def)
  show "\<not> is_true (Some ''false'')" by (simp add: is_true_def)
next
  assume h: "primary_keys d \<and> T \<in> set (tasks d) \<and> p_id p = Some (t_user_id T)"
  let ?i = "next_rowid (subtasks_seq d) (map s_id (subtasks d))"
  let ?row = "\<lparr>s_id = ?i, s_task_id = t_id T, s_title = ''step1'', s_completed = 0,
               s_photo_url = None, s_completed_at = None\<rparr>"
  let ?d1 = "d\<lparr>subtasks := subtasks d @ [?row], subtasks_seq := ?i\<rparr>"
  from h have create: "post_tasks_id_subtasks (t_id T) (Some ''step1'') (Some p) d
                       = (NewSubtaskJson ?i (t_id T) (Some ''step1'') 0, ?d1)"
    using post_tasks_id_subtasks_owned [of T d p "''step1''"] by blast
  from h have keys1: "primary_keys ?d1"
    by (simp add: primary_keys_def sorted_ids_snoc)
  have row1: "?row \<in> set (subtasks ?d1)" by simp
  from h have T1: "T \<in> set (tasks ?d1)" by simp
  have "patch_subtasks_id now (s_id ?row) (Some ''true'') None (Some p) ?d1
        = (SubtaskJson
             (Some (?row\<lparr>s_completed := (if is_true (Some ''true'') then 1 else 0),
                s_completed_at := (if is_true (Some ''true'') then Some now else None)\<rparr>)),
           update_subtask (if is_true (Some ''true'') then 1 else 0)
             (if is_true (Some ''true'') then Some now else None) (s_id ?row) ?d1)"
    using h by (intro patch_no_photo [OF keys1 row1 T1]) simp_all
  then have patch: "patch_subtasks_id now ?i (Some ''true'') None (Some p) ?d1
        = (SubtaskJson
             (Some \<lparr>s_id = ?i, s_task_id = t_id T, s_title = ''step1'', s_completed = 1,
                    s_photo_url = None, s_completed_at = Some now\<rparr>),
           update_subtask 1 (Some now) ?i ?d1)"
    by (simp add: is_true_def)
  from create patch
  show "\<exists>i d1 d2. post_tasks_id_subtasks (t_id T) (Some ''step1'') (Some p) d
                    = (NewSubtaskJson i (t_id T) (Some ''step1'') 0, d1)
         \<and> patch_subtasks_id now i (Some ''true'') None (Some p) d1
             = (SubtaskJson
                  (Some \<lparr>s_id = i, s_task_id = t_id T, s_title = ''step1'', s_completed = 1,
                         s_photo_url = None, s_completed_at = Some now\<rparr>), d2)"
    by blast
qed

theorem patch_without_photo_sets_completed_witness:
  "primary_keys demo_db
   \<and> hd (subtasks demo_db) \<in> set (subtasks demo_db)
   \<and> hd (tasks demo_db) \<in> set (tasks demo_db)
   \<and> t_id (hd (tasks demo_db)) = s_task_id (hd (subtasks demo_db))
   \<and> p_id alice = Some (t_user_id (hd (tasks demo_db)))
   \<and> s_id (hd (subtasks demo_db)) = 1
   \<and> t_id (hd (tasks demo_db)) = 1
   \<and> s_completed (hd (subtasks demo_db)) = 0
   \<and> is_true (Some ''true'')
   \<and> (\<exists>u d'. patch_subtasks_id ''2024-05-06T10:00:00.000Z'' 1 (Some ''true'') None
                 (Some alice) demo_db = (SubtaskJson (Some u), d')
         \<and> select_subtask 1 d' = Some u
         \<and> s_completed u = 1
         \<and> s_completed_at u = Some ''2024-05-06T10:00:00.000Z''
         \<and> s_photo_url u = None)
   \<and> (\<exists>i d1 d2. post_tasks_id_subtasks 1 (Some ''step1'') (Some alice) demo_db
                    = (NewSubtaskJson i 1 (Some ''step1'') 0, d1)
         \<and> patch_subtasks_id ''2024-05-06T10:00:00.000Z'' i (Some ''true'') None
              (Some alice) d1
             = (SubtaskJson
                  (Some \<lparr>s_id = i, s_task_id = 1, s_title = ''step1'', s_completed = 1,
                         s_photo_url = None,
                         s_completed_at = Some ''2024-05-06T10:00:00.000Z''\<rparr>), d2))"
proof -
  have a: "primary_keys demo_db" by code_simp
  have b: "hd (subtasks demo_db) \<in> set (subtasks demo_db)" by (simp add: demo_db_def)
  have c: "hd (tasks demo_db) \<in> set (tasks demo_db)" by (simp add: demo_db_def)
  have e: "t_id (hd (tasks demo_db)) = s_task_id (hd (subtasks demo_db))"
    by (simp add: demo_db_def)
  have f: "p_id alice = Some (t_user_id (hd (tasks demo_db)))" by (simp add: demo_db_def alice_def)
  have g: "s_id (hd (subtasks demo_db)) = 1" by (simp add: demo_db_def)
  have h: "t_id (hd (tasks demo_db)) = 1" by (simp add: demo_db_def)
  have i: "s_completed (hd (subtasks demo_db)) = 0" by (simp add: demo_db_def)
  have j: "s_photo_url (hd (subtasks demo_db)) = None" by (simp add: demo_db_def)
  note t = patch_without_photo_sets_completed
      [of demo_db "hd (subtasks demo_db)" "hd (tasks demo_db)" alice
          "''2024-05-06T10:00:00.000Z''" "Some ''true''"]
  from t have k: "is_true (Some ''true'')" by blast
  from t a b c e f have
    "\<exists>u d'. patch_subtasks_id ''2024-05-06T10:00:00.000Z'' (s_id (hd (subtasks demo_db)))
                 (Some ''true'') None (Some alice) demo_db = (SubtaskJson (Some u), d')
         \<and> select_subtask (s_id (hd (subtasks demo_db))) d' = Some u
         \<and> s_completed u = (if is_true (Some ''true'') then 1 else 0)
         \<and> (is_true (Some ''true'')
              \<longrightarrow> s_completed_at u = Some ''2024-05-06T10:00:00.000Z'')
         \<and> s_photo_url u = s_photo_url (hd (subtasks demo_db))"
    by blast
  with g j k have r1:
    "\<exists>u d'. patch_subtasks_id ''2024-05-06T10:00:00.000Z'' 1 (Some ''true'') None
                 (Some alice) demo_db = (SubtaskJson (Some u), d')
         \<and> select_subtask 1 d' = Some u
         \<and> s_completed u = 1
         \<and> s_completed_at u = Some ''2024-05-06T10:00:00.000Z''
         \<and> s_photo_url u = None"
    by simp
  from t a c f have
    "\<exists>i d1 d2. post_tasks_id_subtasks (t_id (hd (tasks demo_db))) (Some ''step1'')
                    (Some alice) demo_db
                    = (NewSubtaskJson i (t_id (hd (tasks demo_db))) (Some ''step1'') 0, d1)
         \<and> patch_subtasks_id ''2024-05-06T10:00:00.000Z'' i (Some ''true'') None
              (Some alice) d1
             = (SubtaskJson
                  (Some \<lparr>s_id = i, s_task_id = t_id (hd (tasks demo_db)),
                         s_title = ''step1'', s_completed = 1, s_photo_url = None,
                         s_completed_at = Some ''2024-05-06T10:00:00.000Z''\<rparr>), d2)"
    by blast
  then have r2:
    "\<exists>i d1 d2. post_tasks_id_subtasks 1 (Some ''step1'') (Some alice) demo_db
                    = (NewSubtaskJson i 1 (Some ''step1'') 0, d1)
         \<and> patch_subtasks_id ''2024-05-06T10:00:00.000Z'' i (Some ''true'') None
              (Some alice) d1
             = (SubtaskJson
                  (Some \<lparr>s_id = i, s_task_id = 1, s_title = ''step1'', s_completed = 1,
                         s_photo_url = None,
                         s_completed_at = Some ''2024-05-06T10:00:00.000Z''\<rparr>), d2)"
    unfolding h .
  show ?thesis
    by (intro conjI) (fact a b c e f g h i k r1 r2)+
qed

text \<open>
  Claim C7. \<open>PATCH /api/subtasks/:id\<close> without an image and with a \<open>completed\<close>
  field that does not read true, on an owned subtask that has a photo URL, answers the
  stored row with \<open>completed = 0\<close>, \<open>completed_at\<close> NULL and the photo URL it had.
\<close>

theorem uncomplete_keeps_photo_url:
  assumes "primary_keys d" and "s \<in> set (subtasks d)" and "T \<in> set (tasks d)"
      and "t_id T = s_task_id s" and "p_id p = Some (t_user_id T)"
      and "s_photo_url s = Some url" and "\<not> is_true completed"
  shows "\<exists>u d'. patch_subtasks_id now (s_id s) completed None (Some p) d
                  = (SubtaskJson (Some u), d')
          \<and> select_subtask (s_id s) d' = Some u
          \<and> s_completed u = 0
          \<and> s_completed_at u = None
          \<and> s_photo_url u = Some url"
proof -
  let ?u = "s\<lparr>s_completed := 0, s_completed_at := None\<rparr>"
  let ?d' = "update_subtask 0 None (s_id s) d"
  have run: "patch_subtasks_id now (s_id s) completed None (Some p) d
             = (SubtaskJson (Some ?u), ?d')"
    using patch_no_photo [OF assms(1-5), of now completed] assms(7) by simp
  have sel: "select_subtask (s_id s) ?d' = Some ?u"
    using select_subtask_row [OF assms(1,2)] by (simp add: select_subtask_update_subtask)
  show ?thesis
    by (rule exI [where x = ?u], rule exI [where x = ?d']) (simp add: run sel assms(6))
qed

theorem uncomplete_keeps_photo_url_witness:
  "primary_keys demo_db
   \<and> subtasks demo_db ! 1 \<in> set (subtasks demo_db)
   \<and> hd (tasks demo_db) \<in> set (tasks demo_db)
   \<and> t_id (hd (tasks demo_db)) = s_task_id (subtasks demo_db ! 1)
   \<and> p_id alice = Some (t_user_id (hd (tasks demo_db)))
   \<and> s_id (subtasks demo_db ! 1) = 2
   \<and> s_completed_at (subtasks demo_db ! 1) = Some ''2024-05-03T10:00:00.000Z''
   \<and> s_photo_url (subtasks demo_db ! 1) = Some ''/uploads/1714730000000-1.png''
   \<and> \<not> is_true (Some ''false'')
   \<and> (\<exists>u d'. patch_subtasks_id ''2024-05-06T10:00:00.000Z'' 2 (Some ''false'') None
                 (Some alice) demo_db = (SubtaskJson (Some u), d')
         \<and> select_subtask 2 d' = Some u
         \<and> s_completed u = 0
         \<and> s_completed_at u = None
         \<and> s_photo_url u = Some ''/uploads/1714730000000-1.png'')"
proof -
  have a: "primary_keys demo_db" by code_simp
  have b: "subtasks demo_db ! 1 \<in> set (subtasks demo_db)" by (simp add: demo_db_def)
  have c: "hd (tasks demo_db) \<in> set (tasks demo_db)" by (simp add: demo_db_def)
  have e: "t_id (hd (tasks demo_db)) = s_task_id (subtasks demo_db ! 1)"
    by (simp add: demo_db_def)
  have f: "p_id alice = Some (t_user_id (hd (tasks demo_db)))" by (simp add: demo_db_def alice_def)
  have g: "s_id (subtasks demo_db ! 1) = 2" by (simp add: demo_db_def)
  have h: "s_completed_at (subtasks demo_db ! 1) = Some ''2024-05-03T10:00:00.000Z''"
    by (simp add: demo_db_def)
  have i: "s_photo_url (subtasks demo_db ! 1) = Some ''/uploads/1714730000000-1.png''"
    by (simp add: demo_db_def)
  have j: "\<not> is_true (Some ''false'')" by (simp add: is_true_def)
  have r: "\<exists>u d'. patch_subtasks_id ''2024-05-06T10:00:00.000Z'' 2 (Some ''false'') None
                 (Some alice) demo_db = (SubtaskJson (Some u), d')
         \<and> select_subtask 2 d' = Some u
         \<and> s_completed u = 0
         \<and> s_completed_at u = None
         \<and> s_photo_url u = Some ''/uploads/1714730000000-1.png''"
    using uncomplete_keeps_photo_url
            [OF a b c e f i j, of "''2024-05-06T10:00:00.000Z''"]
    unfolding g .
  show ?thesis
    by (intro conjI) (fact a b c e f g h i j r)+
qed

text \<open>
  Claim C1, as the code has it. \<open>PATCH /api/subtasks/:id\<close> with an image, on a
  subtask whose parent task belongs to the session user, answers the stored row with
  \<open>completed = 1\<close> and \<open>photo_url\<close> the URL of the stored image, whatever the
  \<open>completed\<close> field says; but \<open>completed_at\<close> is the current time only when the
  field reads true, and NULL otherwise. The claim wants the current time in both cases.
\<close>

theorem patch_with_photo_completed_at_follows_field:
  assumes "primary_keys d" and "s \<in> set (subtasks d)" and "T \<in> set (tasks d)"
      and "t_id T = s_task_id s" and "p_id p = Some (t_user_id T)"
  shows "\<exists>u d'. patch_subtasks_id now (s_id s) completed (Some filename) (Some p) d
                  = (SubtaskJson (Some u), d')
          \<and> select_subtask (s_id s) d' = Some u
          \<and> s_completed u = 1
          \<and> s_photo_url u = Some (''/uploads/'' @ filename)
          \<and> s_completed_at u = (if is_true completed then Some now else None)"
proof -
  let ?at = "if is_true completed then Some now else None"
  let ?u = "s\<lparr>s_completed := 1, s_photo_url := Some (''/uploads/'' @ filename),
              s_completed_at := ?at\<rparr>"
  let ?d' = "update_subtask_with_photo 1 (''/uploads/'' @ filename) ?at (s_id s) d"
  have run: "patch_subtasks_id now (s_id s) completed (Some filename) (Some p) d
             = (SubtaskJson (Some ?u), ?d')"
    using patch_photo [OF assms, of now completed filename] by simp
  show ?thesis
    by (rule exI [where x = ?u], rule exI [where x = ?d'])
       (simp add: run select_subtask_update_subtask_with_photo
                  select_subtask_row [OF assms(1,2)])
qed

theorem patch_with_photo_completed_at_follows_field_witness:
  "primary_keys demo_db
   \<and> hd (subtasks demo_db) \<in> set (subtasks demo_db)
   \<and> hd (tasks demo_db) \<in> set (tasks demo_db)
   \<and> t_id (hd (tasks demo_db)) = s_task_id (hd (subtasks demo_db))
   \<and> p_id alice = Some (t_user_id (hd (tasks demo_db)))
   \<and> s_id (hd (subtasks demo_db)) = 1
   \<and> (\<exists>u d'. patch_subtasks_id ''2024-05-06T10:00:00.000Z'' 1 (Some ''false'')
                 (Some ''1714990000000-123456789.png'') (Some alice) demo_db
                 = (SubtaskJson (Some u), d')
         \<and> select_subtask 1 d' = Some u
         \<and> s_completed u = 1
         \<and> s_photo_url u = Some ''/uploads/1714990000000-123456789.png''
         \<and> s_completed_at u = None)"
proof -
  have a: "primary_keys demo_db" by code_simp
  have b: "hd (subtasks demo_db) \<in> set (subtasks demo_db)" by (simp add: demo_db_def)
  have c: "hd (tasks demo_db) \<in> set (tasks demo_db)" by (simp add: demo_db_def)
  have e: "t_id (hd (tasks demo_db)) = s_task_id (hd (subtasks demo_db))"
    by (simp add: demo_db_def)
  have f: "p_id alice = Some (t_user_id (hd (tasks demo_db)))" by (simp add: demo_db_def alice_def)
  have g: "s_id (hd (subtasks demo_db)) = 1" by (simp add: demo_db_def)
  have j: "\<not> is_true (Some ''false'')" by (simp add: is_true_def)
  have r: "\<exists>u d'. patch_subtasks_id ''2024-05-06T10:00:00.000Z'' 1 (Some ''false'')
                 (Some ''1714990000000-123456789.png'') (Some alice) demo_db
                 = (SubtaskJson (Some u), d')
         \<and> select_subtask 1 d' = Some u
         \<and> s_completed u = 1
         \<and> s_photo_url u = Some ''/uploads/1714990000000-123456789.png''
         \<and> s_completed_at u = None"
    using patch_with_photo_completed_at_follows_field
            [OF a b c e f, of "''2024-05-06T10:00:00.000Z''" "Some ''false''"
               "''1714990000000-123456789.png''"] j
    unfolding g by simp
  show ?thesis
    by (intro conjI) (fact a b c e f g r)+
qed

end
